theory Spec2Isabelle
  imports Main
begin

section \<open>Python values used by the bridge\<close>

text \<open>
  A Python \<open>str\<close> is a sequence of Unicode code points; a code point is a natural
  number. The line break \<open>"\n"\<close> is code point 10.
\<close>

type_synonym pystr = "nat list"

text \<open>The exceptions of the source that the models below can raise.\<close>

datatype error =
    UnicodeEncodeError
  | IndexError
  | AttributeError
  | RuntimeError
  | RequestError
  | HTTPStatusError
  | JSONDecodeError
  | ValueError
  | TypeError
  | SystemExit
  | CancelledError
  | OtherException

text \<open>
  \<open>s.encode("utf-8")\<close>: one to four bytes per code point. Python refuses to encode the
  surrogates U+D800..U+DFFF (UnicodeEncodeError), and a \<open>str\<close> holds no code point above
  U+10FFFF.
\<close>

definition encodable :: "nat \<Rightarrow> bool" where
  "encodable c \<longleftrightarrow> c < 0xD800 \<or> (0xE000 \<le> c \<and> c \<le> 0x10FFFF)"

definition utf8_width :: "nat \<Rightarrow> int" where
  "utf8_width c =
     (if c < 0x80 then 1 else if c < 0x800 then 2 else if c < 0x10000 then 3 else 4)"

text \<open>\<open>len(s.encode("utf-8"))\<close> for a string that encodes.\<close>

fun utf8_len :: "pystr \<Rightarrow> int" where
  "utf8_len [] = 0"
| "utf8_len (c # cs) = utf8_width c + utf8_len cs"

text \<open>\<open>text.split("\n")\<close>: the pieces between line breaks, one more than there are breaks.\<close>

fun split_lines :: "pystr \<Rightarrow> pystr list" where
  "split_lines [] = [[]]"
| "split_lines (c # cs) =
     (if c = 10 then [] # split_lines cs
      else (case split_lines cs of [] \<Rightarrow> [[c]] | l # ls \<Rightarrow> (c # l) # ls))"

section \<open>bot.py: the byte-aware splitter\<close>

text \<open>
  The loop of \<open>_hard_split_line\<close>: \<open>parts\<close> and \<open>current\<close> are the loop's variables, the
  second argument is what is left of \<open>line\<close>. \<open>if current:\<close> is true of a non-empty string.
\<close>

fun hard_split_loop :: "int \<Rightarrow> pystr \<Rightarrow> pystr list \<Rightarrow> pystr \<Rightarrow> pystr list" where
  "hard_split_loop max_bytes [] parts current =
     (if current \<noteq> [] then parts @ [current] else parts)"
| "hard_split_loop max_bytes (char # rest) parts current =
     (let candidate = current @ [char] in
      if utf8_len candidate > max_bytes
      then hard_split_loop max_bytes rest (parts @ [current]) [char]
      else hard_split_loop max_bytes rest parts candidate)"

text \<open>
  \<open>_hard_split_line(line, max_bytes)\<close>. Every character of \<open>line\<close> is encoded as part of
  \<open>candidate\<close> in its own iteration, so the call raises UnicodeEncodeError exactly when
  some character of \<open>line\<close> does not encode, and nothing is returned then.
\<close>

definition hard_split_line :: "pystr \<Rightarrow> int \<Rightarrow> error + pystr list" where
  "hard_split_line line max_bytes =
     (if list_all encodable line then Inr (hard_split_loop max_bytes line [] [])
      else Inl UnicodeEncodeError)"

text \<open>
  The loop of \<open>split_message\<close> over \<open>text.split("\n")\<close>, with the loop's variables
  \<open>chunks\<close> and \<open>current\<close>. It runs only after the whole text has been encoded once, so
  the inner call of \<open>_hard_split_line\<close> cannot raise and is its loop.
\<close>

fun split_loop :: "int \<Rightarrow> pystr list \<Rightarrow> pystr list \<Rightarrow> pystr \<Rightarrow> pystr list" where
  "split_loop max_bytes [] chunks current =
     (if current \<noteq> [] then chunks @ [current] else chunks)"
| "split_loop max_bytes (line # rest) chunks current =
     (let candidate = (if current \<noteq> [] then current @ [10] @ line else line) in
      if utf8_len candidate > max_bytes then
        (let chunks1 = (if current \<noteq> [] then chunks @ [current] else chunks) in
         if utf8_len line > max_bytes
         then split_loop max_bytes rest (chunks1 @ hard_split_loop max_bytes line [] []) []
         else split_loop max_bytes rest chunks1 line)
      else split_loop max_bytes rest chunks candidate)"

text \<open>
  \<open>split_message(text, max_bytes)\<close>. Its first statement encodes the whole text, which
  raises UnicodeEncodeError if any character does not encode; every later \<open>encode\<close> is of
  characters of the text and line breaks.
\<close>

definition split_message :: "pystr \<Rightarrow> int \<Rightarrow> error + pystr list" where
  "split_message text max_bytes =
     (if \<not> list_all encodable text then Inl UnicodeEncodeError
      else if utf8_len text \<le> max_bytes then Inr [text]
      else Inr (split_loop max_bytes (split_lines text) [] []))"

text \<open>
  Putting chunks back together: between two neighbouring chunks stands either nothing (a cut
  inside a line) or one line break (a cut at a line boundary).
\<close>

fun rejoins :: "pystr list \<Rightarrow> pystr \<Rightarrow> bool" where
  "rejoins [] s = (s = [])"
| "rejoins [c] s = (s = c)"
| "rejoins (c # d # cs) s =
     (take (length c) s = c \<and>
      (rejoins (d # cs) (drop (length c) s) \<or>
       (take 1 (drop (length c) s) = [10] \<and> rejoins (d # cs) (drop (Suc (length c)) s))))"

text \<open>A chunk fits the budget, or it is a single character.\<close>

definition chunk_ok :: "int \<Rightarrow> pystr \<Rightarrow> bool" where
  "chunk_ok max_bytes c \<longleftrightarrow> utf8_len c \<le> max_bytes \<or> length c = 1"

text \<open>What the loop of \<open>split_message\<close> will have emitted if it stops now.\<close>

definition pending :: "pystr list \<Rightarrow> pystr \<Rightarrow> pystr list" where
  "pending chunks current = (if current \<noteq> [] then chunks @ [current] else chunks)"

section \<open>More of Python's strings\<close>

text \<open>A string literal of the source, as code points.\<close>

definition lit :: "string \<Rightarrow> pystr" where
  "lit s = map of_char s"

text \<open>\<open>str(n)\<close> for an integer: its decimal digits, with a minus sign when negative.\<close>

fun str_nat :: "nat \<Rightarrow> pystr" where
  "str_nat n = (if n < 10 then [48 + n] else str_nat (n div 10) @ [48 + n mod 10])"

declare str_nat.simps [simp del]

definition str_int :: "int \<Rightarrow> pystr" where
  "str_int i = (if i < 0 then 45 # str_nat (nat (- i)) else str_nat (nat i))"

text \<open>\<open>c.isspace()\<close>: the white space that \<open>str.strip()\<close> removes.\<close>

definition py_isspace :: "nat \<Rightarrow> bool" where
  "py_isspace c \<longleftrightarrow>
     (9 \<le> c \<and> c \<le> 13) \<or> (28 \<le> c \<and> c \<le> 32) \<or> c = 0x85 \<or> c = 0xA0 \<or> c = 0x1680 \<or>
     (0x2000 \<le> c \<and> c \<le> 0x200A) \<or> c = 0x2028 \<or> c = 0x2029 \<or> c = 0x202F \<or>
     c = 0x205F \<or> c = 0x3000"

definition py_strip :: "pystr \<Rightarrow> pystr" where
  "py_strip s = rev (dropWhile py_isspace (rev (dropWhile py_isspace s)))"

text \<open>\<open>sub in s\<close>: \<open>sub\<close> occurs in \<open>s\<close> as a contiguous run.\<close>

fun py_in :: "pystr \<Rightarrow> pystr \<Rightarrow> bool" where
  "py_in sub [] = (sub = [])"
| "py_in sub (c # cs) = (take (length sub) (c # cs) = sub \<or> py_in sub cs)"

text \<open>
  What the repository imports from \<open>config.py\<close> (not among the sources) and from the Unicode
  tables of the interpreter: the two constants and \<open>str.lower\<close> are parameters of the models.
\<close>

record settings =
  CLI_TIMEOUT_SECONDS :: int
  WEBEX_MAX_MESSAGE_BYTES :: int
  str_lower :: "pystr \<Rightarrow> pystr"

section \<open>claude_cli.py: the subprocess bridge\<close>

text \<open>
  What the operating system answers to one call of \<open>send_message\<close>: the result of
  \<open>shutil.which("claude")\<close>, of \<open>create_subprocess_exec\<close>, of the optional callback
  \<open>on_process_started\<close> (the exception it raises, if any), and of waiting for the child
  under the timeout. An exited child gives its return code and its stdout and stderr, each
  already decoded with \<open>decode("utf-8", errors="replace")\<close>, which cannot fail.
\<close>

datatype spawn_outcome = Spawned | SpawnFileNotFound | SpawnOSError pystr | SpawnRaises error

datatype run_outcome = TimedOut | Exited int pystr pystr

record cli_world =
  which_claude :: "pystr option"
  spawn :: spawn_outcome
  callback_raises :: "error option"
  run :: run_outcome

text \<open>What \<open>send_message\<close> does to the outside, in order.\<close>

datatype proc_action =
    Exec "pystr list" "pystr option"
  | Started
  | Kill
  | Wait
  | LogStderr pystr

definition cli_not_found :: pystr where
  "cli_not_found = lit ''Error: 'claude' CLI not found on PATH. Make sure Claude Code is installed.''"

definition cli_timed_out :: "int \<Rightarrow> pystr" where
  "cli_timed_out secs =
     lit ''Error: CLI timed out after '' @ str_int secs @ lit '' seconds. The process was killed.''"

definition cli_error_msg :: "int \<Rightarrow> pystr" where
  "cli_error_msg returncode =
     lit ''Claude encountered an error (exit code '' @ str_int returncode @
     lit ''). Try sending your message again, or disconnect and reconnect.''"

definition credentials_hint :: pystr where
  "credentials_hint =
     [10, 10] @ lit ''This may be an AWS credentials issue. Check your credentials.''"

definition cli_no_output :: pystr where
  "cli_no_output = lit ''Claude completed the request but returned no output.''"

text \<open>The argument list \<open>cmd\<close> that \<open>send_message\<close> builds.\<close>

definition cli_cmd :: "pystr \<Rightarrow> pystr \<Rightarrow> bool \<Rightarrow> pystr \<Rightarrow> pystr list" where
  "cli_cmd claude_path session_id skip_permissions message =
     [claude_path, lit ''--print'', lit ''--output-format'', lit ''text'',
      lit ''--resume'', session_id]
     @ (if skip_permissions then [lit ''--dangerously-skip-permissions''] else [])
     @ [lit ''--'', message]"

text \<open>
  \<open>send_message(session_id, message, cwd, skip_permissions, on_process_started)\<close>: the
  string it returns or the exception it lets through, and what it did. The last argument
  says whether a callback was passed.
\<close>

definition send_message ::
  "settings \<Rightarrow> cli_world \<Rightarrow> pystr \<Rightarrow> pystr \<Rightarrow> pystr option \<Rightarrow> bool \<Rightarrow> bool \<Rightarrow>
   (error + pystr) \<times> proc_action list" where
  "send_message cfg w session_id message cwd skip_permissions on_process_started =
     (case which_claude w of
        None \<Rightarrow> (Inr cli_not_found, [])
      | Some claude_path \<Rightarrow>
          (let cmd = cli_cmd claude_path session_id skip_permissions message
           in case spawn w of
                SpawnFileNotFound \<Rightarrow> (Inr cli_not_found, [Exec cmd cwd])
              | SpawnOSError e \<Rightarrow> (Inr (lit ''Error starting CLI: '' @ e), [Exec cmd cwd])
              | SpawnRaises e \<Rightarrow> (Inl e, [Exec cmd cwd])
              | Spawned \<Rightarrow>
                  (let started = (if on_process_started then [Started] else []) in
                   case (if on_process_started then callback_raises w else None) of
                     Some e \<Rightarrow> (Inl e, [Exec cmd cwd] @ started)
                   | None \<Rightarrow>
                       (case run w of
                          TimedOut \<Rightarrow>
                            (Inr (cli_timed_out (CLI_TIMEOUT_SECONDS cfg)),
                             [Exec cmd cwd] @ started @ [Kill, Wait])
                        | Exited returncode stdout stderr \<Rightarrow>
                            (let stdout_text = py_strip stdout;
                                 stderr_text = py_strip stderr
                             in if returncode \<noteq> 0 then
                                  (let error_msg = cli_error_msg returncode;
                                       logged = (if stderr_text \<noteq> []
                                                 then [LogStderr (take 1000 stderr_text)] else []);
                                       error_msg1 =
                                         (if py_in (lit ''expired'') (str_lower cfg stderr_text) \<or>
                                             py_in (lit ''credential'') (str_lower cfg stderr_text)
                                          then error_msg @ credentials_hint else error_msg)
                                   in (Inr error_msg1, [Exec cmd cwd] @ started @ logged))
                                else if stdout_text = [] then
                                  (Inr cli_no_output, [Exec cmd cwd] @ started)
                                else (Inr stdout_text, [Exec cmd cwd] @ started))))))"

text \<open>
  The only two things \<open>send_message\<close> asks of the child's stderr when the exit code is not
  zero (the source's test, on the stripped and lower-cased text).
\<close>

definition stderr_hints :: "settings \<Rightarrow> pystr \<Rightarrow> bool" where
  "stderr_hints cfg stderr \<longleftrightarrow>
     py_in (lit ''expired'') (str_lower cfg (py_strip stderr)) \<or>
     py_in (lit ''credential'') (str_lower cfg (py_strip stderr))"

section \<open>webex_api.py: the API client\<close>

definition MAX_RETRIES :: nat where
  "MAX_RETRIES = 3"

text \<open>
  The \<open>Retry-After\<close> header of a response: absent, a text that \<open>int()\<close> reads, or a text on
  which \<open>int()\<close> raises ValueError.
\<close>

datatype retry_after = NoHeader | Seconds int | Malformed

text \<open>
  What one call of \<open>self._client.request\<close> does: it raises \<open>httpx.RequestError\<close>, raises
  something else, or returns a response with a status code, a \<open>Retry-After\<close> header and a
  body (\<open>None\<close> when \<open>response.json()\<close> would fail).
\<close>

datatype 'j attempt =
    RaisesRequestError
  | RaisesOther error
  | Response int retry_after "'j option"

datatype net_event = Request nat | Sleep int

text \<open>
  The body of the loop \<open>for attempt in range(1, MAX_RETRIES + 1)\<close> of \<open>_request\<close>, over
  the attempt numbers still to come; \<open>client n\<close> is the outcome of the request of attempt
  \<open>n\<close>. A loop that runs out raises the "Retries exhausted" HTTPStatusError.
  \<open>raise_for_status\<close> raises HTTPStatusError on a status that is not 2xx.
\<close>

fun request_attempts ::
  "(nat \<Rightarrow> 'j attempt) \<Rightarrow> nat list \<Rightarrow> (error + 'j) \<times> net_event list" where
  "request_attempts client [] = (Inl HTTPStatusError, [])"
| "request_attempts client (attempt # rest) =
     (case client attempt of
        RaisesRequestError \<Rightarrow>
          if attempt < MAX_RETRIES then
            (let wait = min (2 ^ attempt) 30; (r, evs) = request_attempts client rest
             in (r, Request attempt # Sleep wait # evs))
          else (Inl RequestError, [Request attempt])
      | RaisesOther e \<Rightarrow> (Inl e, [Request attempt])
      | Response status_code header body \<Rightarrow>
          if status_code = 429 then
            (let retry_after = (case header of NoHeader \<Rightarrow> min 5 60
                                | Seconds n \<Rightarrow> min n 60
                                | Malformed \<Rightarrow> 5);
                 (r, evs) = request_attempts client rest
             in (r, Request attempt # Sleep retry_after # evs))
          else if status_code = 401 then (Inl SystemExit, [Request attempt])
          else if status_code \<ge> 500 \<and> attempt < MAX_RETRIES then
            (let wait = min (2 ^ attempt) 30; (r, evs) = request_attempts client rest
             in (r, Request attempt # Sleep wait # evs))
          else if \<not> (200 \<le> status_code \<and> status_code < 300) then
            (Inl HTTPStatusError, [Request attempt])
          else (case body of
                  None \<Rightarrow> (Inl JSONDecodeError, [Request attempt])
                | Some j \<Rightarrow> (Inr j, [Request attempt])))"

text \<open>\<open>WebexAPI._request\<close>; the first argument says whether \<open>start()\<close> has set the client.\<close>

definition request :: "bool \<Rightarrow> (nat \<Rightarrow> 'j attempt) \<Rightarrow> (error + 'j) \<times> net_event list" where
  "request started client =
     (if \<not> started then (Inl RuntimeError, [])
      else request_attempts client [1 ..< MAX_RETRIES + 1])"

section \<open>bot.py: one room of a poll cycle\<close>

text \<open>
  A message of the feed, with the fields the loop reads: \<open>msg["id"]\<close>, and
  \<open>msg.get("personId")\<close>, \<open>msg.get("personEmail")\<close>, \<open>msg.get("text")\<close>, each \<open>None\<close>
  when the key is absent.
\<close>

record message =
  msg_id :: pystr
  personId :: "pystr option"
  personEmail :: "pystr option"
  msg_text :: "pystr option"

text \<open>The two variables \<open>last_seen\<close> and \<open>initialized_rooms\<close> of \<open>poll_loop\<close>.\<close>

record poll_state =
  last_seen :: "pystr \<rightharpoonup> pystr"
  initialized_rooms :: "pystr set"

text \<open>
  The loop that collects \<open>new_messages\<close>: the messages of the page, newest first, up to
  the first one whose id is \<open>last_seen.get(room_id)\<close>, where it breaks.
\<close>

fun collect_new :: "pystr option \<Rightarrow> message list \<Rightarrow> message list" where
  "collect_new seen [] = []"
| "collect_new seen (msg # rest) =
     (if Some (msg_id msg) = seen then [] else msg # collect_new seen rest)"

text \<open>
  The three \<open>continue\<close> tests on one new message: the text handed to \<open>dispatch\<close>, or
  \<open>None\<close> when the message is skipped. \<open>is_authorized\<close> comes from \<open>auth.py\<close> (not among
  the sources) and is a parameter, as is \<open>api.bot_id\<close>.
\<close>

definition event_of :: "pystr option \<Rightarrow> (pystr \<Rightarrow> bool) \<Rightarrow> message \<Rightarrow> pystr option" where
  "event_of bot_id is_authorized msg =
     (if personId msg = bot_id then None
      else (let sender_email = (case personEmail msg of None \<Rightarrow> [] | Some e \<Rightarrow> e) in
            if \<not> is_authorized sender_email then None
            else (let text = py_strip (case msg_text msg of None \<Rightarrow> [] | Some t \<Rightarrow> t) in
                  if text = [] then None else Some text)))"

text \<open>
  The loop over the new messages, oldest first. \<open>dispatch n\<close> is what the call number
  \<open>n\<close> of \<open>dispatch\<close> does: it returns (\<open>None\<close>) or raises. The result is the exception
  that ends the loop, if any, and the calls of \<open>dispatch\<close> made: room and text.
\<close>

fun process_messages ::
  "(nat \<Rightarrow> error option) \<Rightarrow> nat \<Rightarrow> pystr option \<Rightarrow> (pystr \<Rightarrow> bool) \<Rightarrow> pystr \<Rightarrow> message list \<Rightarrow>
   error option \<times> (pystr \<times> pystr) list" where
  "process_messages dispatch n bot_id is_authorized room_id [] = (None, [])"
| "process_messages dispatch n bot_id is_authorized room_id (msg # rest) =
     (case event_of bot_id is_authorized msg of
        None \<Rightarrow> process_messages dispatch n bot_id is_authorized room_id rest
      | Some text \<Rightarrow>
          (case dispatch n of
             Some e \<Rightarrow> (Some e, [(room_id, text)])
           | None \<Rightarrow>
               (let (r, calls) = process_messages dispatch (Suc n) bot_id is_authorized room_id rest
                in (r, (room_id, text) # calls))))"

text \<open>
  The body of \<open>for room in rooms\<close> in \<open>poll_loop\<close>, given the page that \<open>list_messages\<close>
  returned for the room: the exception raised, the new state and the calls of \<open>dispatch\<close>.
\<close>

definition poll_room ::
  "(nat \<Rightarrow> error option) \<Rightarrow> pystr option \<Rightarrow> (pystr \<Rightarrow> bool) \<Rightarrow> poll_state \<Rightarrow> pystr \<Rightarrow>
   message list \<Rightarrow> error option \<times> poll_state \<times> (pystr \<times> pystr) list" where
  "poll_room dispatch bot_id is_authorized st room_id messages =
     (case messages of
        [] \<Rightarrow> (None, st, [])
      | newest # _ \<Rightarrow>
          (let newest_id = msg_id newest in
           if room_id \<notin> initialized_rooms st then
             (None,
              st\<lparr>initialized_rooms := insert room_id (initialized_rooms st),
                 last_seen := (last_seen st)(room_id \<mapsto> newest_id)\<rparr>,
              [])
           else if last_seen st room_id = Some newest_id then (None, st, [])
           else
             (let new_messages = collect_new (last_seen st room_id) messages;
                  st1 = st\<lparr>last_seen := (last_seen st)(room_id \<mapsto> newest_id)\<rparr>;
                  (r, calls) = process_messages dispatch 0 bot_id is_authorized room_id
                                 (rev new_messages)
              in (r, st1, calls))))"

section \<open>bot.py: a conversational turn\<close>

text \<open>\<open>SessionInfo\<close> comes from \<open>sessions.py\<close>, which is not among the sources.\<close>

typedecl SessionInfo

record BotState =
  session_id :: "pystr option"
  session_cwd :: "pystr option"
  session_label :: pystr
  skip_permissions :: bool
  pending_sessions :: "SessionInfo list"
  processing :: bool

text \<open>
  What a call of the API client gives back to the handler: a JSON value or an exception.
  Of a JSON object only \<open>.get("id")\<close> is read; \<open>NoneValue\<close> is Python's \<open>None\<close>, which
  \<open>edit_message\<close> returns when the edit failed; any other value has no \<open>.get\<close>.
\<close>

datatype json_value = Dict "pystr option" | NoneValue | OtherValue





















text \<open>A stand-in for \<open>str.lower\<close> on ASCII text, for running the models on examples.\<close>

definition ascii_lower :: "pystr \<Rightarrow> pystr" where
  "ascii_lower s = map (\<lambda>c. if 65 \<le> c \<and> c \<le> 90 then c + 32 else c) s"

section \<open>Example inputs\<close>

text \<open>Concrete settings, worlds and states on which the models are run below.\<close>

definition example_settings :: settings where
  "example_settings =
     \<lparr>CLI_TIMEOUT_SECONDS = 300, WEBEX_MAX_MESSAGE_BYTES = 7439, str_lower = ascii_lower\<rparr>"

definition timed_out_cli :: cli_world where
  "timed_out_cli =
     \<lparr>which_claude = Some (lit ''/usr/bin/claude''), spawn = Spawned,
      callback_raises = None, run = TimedOut\<rparr>"





definition flaky_then_401 :: "nat \<Rightarrow> unit attempt" where
  "flaky_then_401 n = (if n = 1 then Response 503 NoHeader None else Response 401 NoHeader None)"

definition user_msg :: "string \<Rightarrow> string \<Rightarrow> message" where
  "user_msg i t =
     \<lparr>msg_id = lit i, personId = Some (lit ''user''), personEmail = Some (lit ''u@example.org''),
      msg_text = Some (lit t)\<rparr>"

definition only_user :: "pystr \<Rightarrow> bool" where
  "only_user email \<longleftrightarrow> email = lit ''u@example.org''"

definition room_cursor :: "string \<Rightarrow> poll_state" where
  "room_cursor i =
     \<lparr>last_seen = [lit ''room'' \<mapsto> lit i], initialized_rooms = {lit ''room''}\<rparr>"

definition always_returns :: "nat \<Rightarrow> error option" where
  "always_returns n = None"

section \<open>Properties of the splitter\<close>

subsection \<open>Encoded lengths\<close>

lemma utf8_width_pos: "1 \<le> utf8_width c"
  by (simp add: utf8_width_def)

lemma utf8_width_le4: "utf8_width c \<le> 4"
  by (simp add: utf8_width_def)

lemma utf8_len_nonneg: "0 \<le> utf8_len s"
proof (induction s)
  case Nil
  show ?case by simp
next
  case (Cons c s)
  have "1 \<le> utf8_width c" by (rule utf8_width_pos)
  with Cons show ?case by simp
qed

lemma utf8_len_append: "utf8_len (a @ b) = utf8_len a + utf8_len b"
  by (induction a) simp_all

lemma hard_split_loop_ok:
  "\<forall>p \<in> set parts. chunk_ok B p \<Longrightarrow> chunk_ok B current \<Longrightarrow>
   \<forall>p \<in> set (hard_split_loop B line parts current). chunk_ok B p"
proof (induction line arbitrary: parts current)
  case Nil
  then show ?case by simp
next
  case (Cons char rest)
  show ?case
  proof (cases "utf8_len (current @ [char]) > B")
    case True
    have "\<forall>p \<in> set (parts @ [current]). chunk_ok B p" using Cons.prems by simp
    moreover have "chunk_ok B [char]" by (simp add: chunk_ok_def)
    ultimately have "\<forall>p \<in> set (hard_split_loop B rest (parts @ [current]) [char]). chunk_ok B p"
      by (rule Cons.IH)
    with True show ?thesis by simp
  next
    case False
    then have "chunk_ok B (current @ [char])" by (simp add: chunk_ok_def)
    with Cons.prems(1) have "\<forall>p \<in> set (hard_split_loop B rest parts (current @ [char])). chunk_ok B p"
      by (rule Cons.IH)
    with False show ?thesis by simp
  qed
qed

lemma split_loop_ok:
  "0 \<le> B \<Longrightarrow> \<forall>p \<in> set chunks. chunk_ok B p \<Longrightarrow> utf8_len current \<le> B \<Longrightarrow>
   \<forall>p \<in> set (split_loop B ls chunks current). chunk_ok B p"
proof (induction ls arbitrary: chunks current)
  case Nil
  then show ?case by (simp add: chunk_ok_def)
next
  case (Cons line rest)
  let ?cand = "if current \<noteq> [] then current @ [10] @ line else line"
  let ?chunks1 = "if current \<noteq> [] then chunks @ [current] else chunks"
  have c1: "\<forall>p \<in> set ?chunks1. chunk_ok B p"
    using Cons.prems by (simp add: chunk_ok_def)
  have e: "utf8_len [] \<le> B" using Cons.prems(1) by simp
  have e': "chunk_ok B []" using Cons.prems(1) by (simp add: chunk_ok_def)
  show ?case
  proof (cases "utf8_len ?cand > B")
    case over: True
    show ?thesis
    proof (cases "utf8_len line > B")
      case True
      have "\<forall>p \<in> set (hard_split_loop B line [] []). chunk_ok B p"
        by (rule hard_split_loop_ok) (simp_all add: e')
      with c1 have "\<forall>p \<in> set (?chunks1 @ hard_split_loop B line [] []). chunk_ok B p"
        by auto
      from Cons.IH[OF Cons.prems(1) this e] over True show ?thesis by (simp add: Let_def)
    next
      case False
      then have "utf8_len line \<le> B" by simp
      from Cons.IH[OF Cons.prems(1) c1 this] over False show ?thesis by (simp add: Let_def)
    qed
  next
    case False
    then have "utf8_len ?cand \<le> B" by simp
    from Cons.IH[OF Cons.prems(1) Cons.prems(2) this] False show ?thesis by (simp add: Let_def)
  qed
qed

lemma chunk_ok_wide: "4 \<le> B \<Longrightarrow> chunk_ok B c \<Longrightarrow> utf8_len c \<le> B"
proof -
  assume B: "4 \<le> B" and ok: "chunk_ok B c"
  show ?thesis
  proof (cases "utf8_len c \<le> B")
    case True then show ?thesis .
  next
    case False
    with ok have "length c = 1" by (simp add: chunk_ok_def)
    then obtain x where "c = [x]" by (cases c) auto
    with utf8_width_le4[of x] B show ?thesis by simp
  qed
qed


subsection \<open>Rejoining chunks\<close>

lemma rejoins_Cons_iff:
  "cs \<noteq> [] \<Longrightarrow>
   rejoins (c # cs) t \<longleftrightarrow> (\<exists>t'. rejoins cs t' \<and> (t = c @ t' \<or> t = c @ 10 # t'))"
proof (cases cs)
  case Nil
  then show "cs \<noteq> [] \<Longrightarrow> ?thesis" by simp
next
  case (Cons d ds)
  show ?thesis
  proof
    assume r: "rejoins (c # cs) t"
    then have tk: "take (length c) t = c" using Cons by simp
    then have t: "t = c @ drop (length c) t" by (metis append_take_drop_id)
    from r Cons consider
      (a) "rejoins cs (drop (length c) t)" |
      (b) "take 1 (drop (length c) t) = [10]" "rejoins cs (drop (Suc (length c)) t)"
      by auto
    then show "\<exists>t'. rejoins cs t' \<and> (t = c @ t' \<or> t = c @ 10 # t')"
    proof cases
      case a
      with t show ?thesis by blast
    next
      case b
      have "take 1 (drop (length c) t) @ drop 1 (drop (length c) t) = drop (length c) t"
        by (rule append_take_drop_id)
      with b(1) have "drop (length c) t = 10 # drop (Suc (length c)) t" by simp
      with t have "t = c @ 10 # drop (Suc (length c)) t" by simp
      with b(2) show ?thesis by blast
    qed
  next
    assume "\<exists>t'. rejoins cs t' \<and> (t = c @ t' \<or> t = c @ 10 # t')"
    then obtain t' where r: "rejoins cs t'" and t: "t = c @ t' \<or> t = c @ 10 # t'" by blast
    from t show "rejoins (c # cs) t"
    proof
      assume "t = c @ t'"
      with r Cons show ?thesis by simp
    next
      assume "t = c @ 10 # t'"
      with r Cons show ?thesis by simp
    qed
  qed
qed

lemma rejoins_append_nl:
  "xs \<noteq> [] \<Longrightarrow> ys \<noteq> [] \<Longrightarrow> rejoins xs t \<Longrightarrow> rejoins ys u \<Longrightarrow> rejoins (xs @ ys) (t @ 10 # u)"
proof (induction xs arbitrary: t)
  case Nil
  then show ?case by simp
next
  case (Cons x xs)
  show ?case
  proof (cases "xs = []")
    case True
    with Cons.prems have "t = x" by simp
    with Cons.prems True show ?thesis by (simp add: rejoins_Cons_iff) blast
  next
    case False
    with Cons.prems obtain t' where r: "rejoins xs t'" and t: "t = x @ t' \<or> t = x @ 10 # t'"
      by (auto simp: rejoins_Cons_iff)
    from Cons.IH[OF False Cons.prems(2) r Cons.prems(4)]
    have "rejoins (xs @ ys) (t' @ 10 # u)" .
    moreover have "xs @ ys \<noteq> []" using False by simp
    ultimately show ?thesis using t by (auto simp: rejoins_Cons_iff)
  qed
qed

lemma rejoins_snoc_extend:
  "rejoins (xs @ [c]) t \<Longrightarrow> rejoins (xs @ [c @ u]) (t @ u)"
proof (induction xs arbitrary: t)
  case Nil
  then show ?case by simp
next
  case (Cons x xs)
  have ne: "xs @ [c] \<noteq> []" "xs @ [c @ u] \<noteq> []" by simp_all
  from Cons.prems obtain t' where r: "rejoins (xs @ [c]) t'" and t: "t = x @ t' \<or> t = x @ 10 # t'"
    using rejoins_Cons_iff[OF ne(1)] by auto
  from Cons.IH[OF r] have "rejoins (xs @ [c @ u]) (t' @ u)" .
  then show ?case using t rejoins_Cons_iff[OF ne(2), of x "t @ u"] by auto
qed

lemma rejoins_concat: "cs \<noteq> [] \<Longrightarrow> rejoins cs (concat cs)"
proof (induction cs)
  case Nil
  then show ?case by simp
next
  case (Cons c cs)
  show ?case
  proof (cases "cs = []")
    case True
    then show ?thesis by simp
  next
    case False
    with Cons.IH have "rejoins cs (concat cs)" by simp
    with False show ?thesis by (auto simp: rejoins_Cons_iff)
  qed
qed

lemma concat_hard_split_loop:
  "concat (hard_split_loop B line parts current) = concat parts @ current @ line"
  by (induction line arbitrary: parts current) (simp_all add: Let_def)

lemma hard_split_loop_nonempty:
  "line \<noteq> [] \<or> current \<noteq> [] \<Longrightarrow> hard_split_loop B line parts current \<noteq> []"
proof -
  assume "line \<noteq> [] \<or> current \<noteq> []"
  then have "concat (hard_split_loop B line parts current) \<noteq> []"
    by (auto simp: concat_hard_split_loop)
  then show ?thesis by auto
qed

lemma rejoins_hard_split:
  "line \<noteq> [] \<Longrightarrow> rejoins (hard_split_loop B line [] []) line"
  using rejoins_concat[OF hard_split_loop_nonempty[of line "[]" B "[]"]]
  by (simp add: concat_hard_split_loop)

lemma split_loop_rejoins:
  "\<forall>l \<in> set ls. l \<noteq> [] \<Longrightarrow> pending chunks current \<noteq> [] \<Longrightarrow>
   rejoins (pending chunks current) t \<Longrightarrow>
   rejoins (split_loop B ls chunks current) (t @ concat (map (\<lambda>l. 10 # l) ls))"
proof (induction ls arbitrary: chunks current t)
  case Nil
  then show ?case by (simp add: pending_def)
next
  case (Cons line rest)
  have rest: "\<forall>l \<in> set rest. l \<noteq> []" and line: "line \<noteq> []" using Cons.prems(1) by simp_all
  let ?t = "t @ 10 # line"
  have goal: "rejoins (split_loop B rest chunks' current') (?t @ concat (map (\<lambda>l. 10 # l) rest))"
    if "pending chunks' current' \<noteq> []" "rejoins (pending chunks' current') ?t"
    for chunks' current'
    using Cons.IH[OF rest that] .
  have new: "rejoins (pending chunks current @ ys) ?t" if "ys \<noteq> []" "rejoins ys line" for ys
    using rejoins_append_nl[OF Cons.prems(2) that(1) Cons.prems(3) that(2)] .
  have hs: "hard_split_loop B line [] [] \<noteq> []"
    using hard_split_loop_nonempty[of line "[]" B "[]"] line by simp
  have hr: "rejoins (hard_split_loop B line [] []) line"
    using rejoins_hard_split[OF line] .
  show ?case
  proof (cases "current = []")
    case True
    then have p: "pending chunks current = chunks" by (simp add: pending_def)
    show ?thesis
    proof (cases "utf8_len line > B")
      case over: True
      have "rejoins (pending (chunks @ hard_split_loop B line [] []) []) ?t"
        using new[OF hs hr] p
        by (simp add: pending_def)
      moreover have "pending (chunks @ hard_split_loop B line [] []) [] \<noteq> []"
        using Cons.prems(2) p by (simp add: pending_def)
      ultimately show ?thesis using goal True over by (simp add: Let_def)
    next
      case False
      have "rejoins (pending chunks line) ?t"
        using new[of "[line]"] line p by (simp add: pending_def)
      moreover have "pending chunks line \<noteq> []" using line by (simp add: pending_def)
      ultimately show ?thesis using goal True False by (simp add: Let_def)
    qed
  next
    case cur: False
    then have p: "pending chunks current = chunks @ [current]" by (simp add: pending_def)
    show ?thesis
    proof (cases "utf8_len (current @ [10] @ line) > B")
      case over: True
      show ?thesis
      proof (cases "utf8_len line > B")
        case True
        have "rejoins (pending ((chunks @ [current]) @ hard_split_loop B line [] []) []) ?t"
          using new[OF hs hr] p
          by (simp add: pending_def)
        moreover have "pending ((chunks @ [current]) @ hard_split_loop B line [] []) [] \<noteq> []"
          by (simp add: pending_def)
        ultimately show ?thesis using goal cur over True by (simp add: Let_def)
      next
        case False
        have "rejoins (pending (chunks @ [current]) line) ?t"
          using new[of "[line]"] line p by (simp add: pending_def)
        moreover have "pending (chunks @ [current]) line \<noteq> []" using line by (simp add: pending_def)
        ultimately show ?thesis using goal cur over False by (simp add: Let_def)
      qed
    next
      case False
      have "rejoins (chunks @ [current @ 10 # line]) ?t"
        using rejoins_snoc_extend[of chunks current t "10 # line"] Cons.prems(3) p by simp
      then have "rejoins (pending chunks (current @ [10] @ line)) ?t" by (simp add: pending_def)
      moreover have "pending chunks (current @ [10] @ line) \<noteq> []" by (simp add: pending_def)
      ultimately show ?thesis using goal cur False by (simp add: Let_def)
    qed
  qed
qed

lemma split_lines_nonempty: "split_lines s \<noteq> []"
  by (induction s) (auto split: list.splits)

lemma split_lines_join:
  "split_lines s = l # ls \<Longrightarrow> s = l @ concat (map (\<lambda>l. 10 # l) ls)"
proof (induction s arbitrary: l ls)
  case Nil
  then show ?case by simp
next
  case (Cons c s)
  obtain l' ls' where sp: "split_lines s = l' # ls'"
    using split_lines_nonempty[of s] by (cases "split_lines s") auto
  from Cons.IH[OF sp] have s: "s = l' @ concat (map (\<lambda>l. 10 # l) ls')" .
  show ?case
  proof (cases "c = 10")
    case True
    with Cons.prems sp have "l = []" "ls = l' # ls'" by simp_all
    with s True show ?thesis by simp
  next
    case False
    with Cons.prems sp have "l = c # l'" "ls = ls'" by simp_all
    with s show ?thesis by simp
  qed
qed

lemma split_loop_first:
  assumes "\<forall>l \<in> set (l # ls). l \<noteq> []"
  shows "rejoins (split_loop B (l # ls) [] []) (l @ concat (map (\<lambda>l. 10 # l) ls))"
proof -
  have l: "l \<noteq> []" and ls: "\<forall>l \<in> set ls. l \<noteq> []" using assms by simp_all
  show ?thesis
  proof (cases "utf8_len l > B")
    case True
    have "pending (hard_split_loop B l [] []) [] \<noteq> []"
      using hard_split_loop_nonempty[of l "[]" B "[]"] l by (simp add: pending_def)
    moreover have "rejoins (pending (hard_split_loop B l [] []) []) l"
      using rejoins_hard_split[OF l] by (simp add: pending_def)
    ultimately show ?thesis using split_loop_rejoins[OF ls] True by (simp add: Let_def)
  next
    case False
    have "pending [] l \<noteq> []" "rejoins (pending [] l) l" using l by (simp_all add: pending_def)
    then show ?thesis using split_loop_rejoins[OF ls] False by (simp add: Let_def)
  qed
qed


subsection \<open>Claims about the splitter\<close>

text \<open>
  Where the text fits the budget or none of its lines is empty, the text is the chunks in
  order, with nothing or exactly one line break between neighbouring chunks.
\<close>

lemma split_message_rejoins:
  assumes "split_message s B = Inr chunks"
    and "utf8_len s \<le> B \<or> (\<forall>l \<in> set (split_lines s). l \<noteq> [])"
  shows "rejoins chunks s"
proof (cases "utf8_len s \<le> B")
  case True
  with assms(1) have "chunks = [s]" by (simp add: split_message_def split: if_splits)
  then show ?thesis by simp
next
  case False
  with assms(1) have c: "chunks = split_loop B (split_lines s) [] []"
    by (simp add: split_message_def split: if_splits)
  from False assms(2) have ne: "\<forall>l \<in> set (split_lines s). l \<noteq> []" by simp
  obtain l ls where sp: "split_lines s = l # ls"
    using split_lines_nonempty[of s] by (cases "split_lines s") auto
  from split_loop_first[of l ls B] ne sp split_lines_join[OF sp] c show ?thesis by simp
qed

lemma split_message_rejoins_example:
  "split_message [97, 98, 99, 100, 10, 101, 10, 102] 2 = Inr [[97, 98], [99, 100], [101], [102]] \<and>
   split_lines [97, 98, 99, 100, 10, 101, 10, 102] = [[97, 98, 99, 100], [101], [102]] \<and>
   rejoins [[97, 98], [99, 100], [101], [102]] [97, 98, 99, 100, 10, 101, 10, 102]"
proof -
  have h1: "split_message [97, 98, 99, 100, 10, 101, 10, 102] 2
              = Inr [[97, 98], [99, 100], [101], [102]]"
    by (simp add: split_message_def encodable_def utf8_width_def)
  have h2: "\<forall>l \<in> set (split_lines [97, 98, 99, 100, 10, 101, 10, 102]). l \<noteq> []"
    by simp
  have h3: "utf8_len [97, 98, 99, 100, 10, 101, 10, 102] \<le> 2 \<or>
            (\<forall>l \<in> set (split_lines [97, 98, 99, 100, 10, 101, 10, 102]). l \<noteq> [])"
    using h2 by blast
  have h4: "split_lines [97, 98, 99, 100, 10, 101, 10, 102] = [[97, 98, 99, 100], [101], [102]]"
    by simp
  from split_message_rejoins[OF h1 h3] h1 h4 show ?thesis by blast
qed

text \<open>
  C1: for every string \<open>s\<close> and budget \<open>B > 0\<close>, the chunks of \<open>split_message s B\<close>,
  rejoined with the original line breaks, give \<open>s\<close> back. The code at three inputs:
  \<open>"a\n\nb"\<close> with budget 1 is split into \<open>"a"\<close> and \<open>"b"\<close>, exactly as \<open>"a\nb"\<close> is, and
  neither \<open>"ab"\<close> nor \<open>"a\nb"\<close> is the text: the empty line is met while \<open>current\<close> is
  empty, and \<open>if current\<close> takes it for no line at all. With budget 3 the same empty line
  is met while \<open>current\<close> is \<open>"a"\<close> and is kept, as \<open>"a\n"\<close>. And \<open>"aaaa\n\nb"\<close> with budget
  3, of the shape the caller passes (no white space at either end), loses its empty line
  after the hard split.
\<close>

theorem split_message_drops_empty_line:
  "split_message [97, 10, 10, 98] 1 = Inr [[97], [98]] \<and>
   split_message [97, 10, 98] 1 = Inr [[97], [98]] \<and>
   rejoins [[97], [98]] [97, 10, 10, 98] = False \<and>
   split_message [97, 10, 10, 98] 3 = Inr [[97, 10], [98]] \<and>
   rejoins [[97, 10], [98]] [97, 10, 10, 98] = True \<and>
   split_message [97, 97, 97, 97, 10, 10, 98] 3 = Inr [[97, 97, 97], [97], [98]] \<and>
   rejoins [[97, 97, 97], [97], [98]] [97, 97, 97, 97, 10, 10, 98] = False"
  by (simp add: split_message_def encodable_def utf8_width_def Let_def)

text \<open>
  C3, as stated: every chunk of \<open>split_message s B\<close> has at most \<open>B\<close> bytes in UTF-8. It
  fails where one character alone is wider than the budget: the character U+00E9 (two bytes)
  with budget 1 comes back as an empty chunk and the two-byte character.
\<close>

theorem split_message_chunk_bytes_counterexample:
  "split_message [233] 1 = Inr [[], [233]] \<and> \<not> utf8_len [233] \<le> 1"
  by (simp add: split_message_def encodable_def utf8_width_def)

text \<open>
  C3, amended: for a budget \<open>B > 0\<close>, every chunk of \<open>split_message s B\<close> has at most
  \<open>B\<close> bytes in UTF-8 or is one single character (which is never cut); so for \<open>B \<ge> 4\<close>,
  the width of the widest character, every chunk has at most \<open>B\<close> bytes.
\<close>

theorem split_message_chunk_bytes:
  assumes "0 < B" and "split_message s B = Inr chunks" and "c \<in> set chunks"
  shows "(utf8_len c \<le> B \<or> length c = 1) \<and> (4 \<le> B \<longrightarrow> utf8_len c \<le> B)"
proof -
  have ok: "chunk_ok B c"
  proof (cases "utf8_len s \<le> B")
    case True
    with assms(2) have "chunks = [s]" by (simp add: split_message_def split: if_splits)
    with assms(3) have "c = s" by simp
    with True show ?thesis by (simp add: chunk_ok_def)
  next
    case False
    with assms(2) have "chunks = split_loop B (split_lines s) [] []"
      by (simp add: split_message_def split: if_splits)
    moreover have "\<forall>p \<in> set (split_loop B (split_lines s) [] []). chunk_ok B p"
      by (rule split_loop_ok) (use assms(1) in simp_all)
    ultimately show ?thesis using assms(3) by simp
  qed
  then show ?thesis using chunk_ok_wide[of B c] by (auto simp: chunk_ok_def)
qed

theorem split_message_chunk_bytes_witness:
  "(0::int) < 4 \<and> split_message [233, 233, 97, 10, 8364] 4 = Inr [[233, 233], [97], [8364]] \<and>
   [8364] \<in> set [[233, 233], [97], [8364::nat]] \<and> (4::int) \<le> 4 \<and> utf8_len [8364] \<le> 4"
proof -
  have h1: "(0::int) < 4" by simp
  have h2: "split_message [233, 233, 97, 10, 8364] 4 = Inr [[233, 233], [97], [8364]]"
    by (simp add: split_message_def encodable_def utf8_width_def)
  have h3: "[8364] \<in> set [[233, 233], [97], [8364::nat]]" by simp
  from split_message_chunk_bytes[OF h1 h2 h3] h1 h2 h3 show ?thesis by simp
qed

text \<open>
  C4: \<open>split_message\<close> returns at least one chunk, one empty chunk for the empty text, and
  \<open>_hard_split_line\<close> emits no empty chunk. The code at two inputs: a text of two line breaks
  with budget 1 gives no chunk at all (every line is empty, so \<open>current\<close> stays empty and the
  final \<open>if current:\<close> appends nothing), and a two-byte character with budget 1 makes
  \<open>_hard_split_line\<close> append the still empty \<open>current\<close>.
\<close>

theorem split_message_no_chunk:
  "split_message [10, 10] 1 = Inr [] \<and> hard_split_line [233] 1 = Inr [[], [233]] \<and>
   split_message [] 1 = Inr [[]]"
  by (simp add: split_message_def hard_split_line_def encodable_def utf8_width_def)

section \<open>Properties of the subprocess bridge\<close>

lemma send_message_exited:
  "fst (send_message cfg (w\<lparr>run := Exited returncode stdout stderr\<rparr>)
          sid message cwd skip on_process_started) =
   (case which_claude w of None \<Rightarrow> Inr cli_not_found
    | Some p \<Rightarrow>
      (case spawn w of
         SpawnFileNotFound \<Rightarrow> Inr cli_not_found
       | SpawnOSError e \<Rightarrow> Inr (lit ''Error starting CLI: '' @ e)
       | SpawnRaises e \<Rightarrow> Inl e
       | Spawned \<Rightarrow>
          (case (if on_process_started then callback_raises w else None) of
             Some e \<Rightarrow> Inl e
           | None \<Rightarrow>
               if returncode \<noteq> 0 then
                 Inr (if stderr_hints cfg stderr then cli_error_msg returncode @ credentials_hint
                      else cli_error_msg returncode)
               else if py_strip stdout = [] then Inr cli_no_output
               else Inr (py_strip stdout))))"
  by (simp add: send_message_def stderr_hints_def Let_def
           split: option.splits spawn_outcome.splits)



text \<open>
  C9: two runs of the bridge that differ only in what the child wrote to stderr return the
  same string whenever the exit code is zero, or the two stderr texts agree on the one test
  the source makes (whether the stripped, lower-cased text contains \<open>expired\<close> or
  \<open>credential\<close>). The returned string is thus a function of the rest of the run and of that
  one bit; the stderr text itself only reaches the server-side log.
\<close>

theorem send_message_hides_stderr:
  assumes "returncode = 0 \<or> stderr_hints cfg stderr1 = stderr_hints cfg stderr2"
  shows "fst (send_message cfg (w\<lparr>run := Exited returncode stdout stderr1\<rparr>)
                sid message cwd skip on_process_started) =
         fst (send_message cfg (w\<lparr>run := Exited returncode stdout stderr2\<rparr>)
                sid message cwd skip on_process_started)"
  using assms unfolding send_message_exited
  by (auto split: option.splits spawn_outcome.splits)

theorem send_message_hides_stderr_witness:
  "stderr_hints example_settings (lit ''Token EXPIRED: key=abc'') \<and>
   stderr_hints example_settings (lit ''bad credential xyz'') \<and>
   fst (send_message example_settings
          (timed_out_cli\<lparr>run := Exited 1 (lit ''out'') (lit ''Token EXPIRED: key=abc'')\<rparr>)
          (lit ''s1'') (lit ''hi'') None True False) =
   fst (send_message example_settings
          (timed_out_cli\<lparr>run := Exited 1 (lit ''out'') (lit ''bad credential xyz'')\<rparr>)
          (lit ''s1'') (lit ''hi'') None True False)"
proof -
  have h1: "stderr_hints example_settings (lit ''Token EXPIRED: key=abc'')"
    by (simp add: stderr_hints_def example_settings_def ascii_lower_def lit_def
                  py_strip_def py_isspace_def)
  have h2: "stderr_hints example_settings (lit ''bad credential xyz'')"
    by (simp add: stderr_hints_def example_settings_def ascii_lower_def lit_def
                  py_strip_def py_isspace_def)
  have h: "(1::int) = 0 \<or>
           stderr_hints example_settings (lit ''Token EXPIRED: key=abc'') =
           stderr_hints example_settings (lit ''bad credential xyz'')"
    using h1 h2 by simp
  from send_message_hides_stderr[OF h] h1 h2 show ?thesis by blast
qed

section \<open>Properties of the API client\<close>

lemma request_attempts_401_last:
  "Request k \<in> set (snd (request_attempts client atts)) \<Longrightarrow> client k = Response 401 h b \<Longrightarrow>
   fst (request_attempts client atts) = Inl SystemExit \<and>
   last (snd (request_attempts client atts)) = Request k"
proof (induction atts)
  case Nil
  then show ?case by simp
next
  case (Cons a rest)
  show ?case
  proof (cases "a = k")
    case True
    with Cons.prems(2) show ?thesis by simp
  next
    case False
    obtain r evs where rest: "request_attempts client rest = (r, evs)"
      by (cases "request_attempts client rest")
    have tail: "fst (request_attempts client rest) = Inl SystemExit \<and>
                last (snd (request_attempts client rest)) = Request k"
      if "Request k \<in> set evs"
      using Cons.IH that rest Cons.prems(2) by simp
    have ne: "evs \<noteq> []" if "Request k \<in> set evs" using that by auto
    from Cons.prems(1) False rest tail ne show ?thesis
      by (auto split: attempt.splits if_splits option.splits retry_after.splits)
  qed
qed

text \<open>
  C7: if the request of attempt \<open>k\<close> is made and answered with status 401, then
  \<open>_request\<close> raises SystemExit, and that request is the last thing it does: no sleep and no
  further attempt follow, whatever \<open>k\<close> is and however many attempts were left.
\<close>

theorem request_401_fatal:
  assumes "Request k \<in> set (snd (request started client))"
    and "client k = Response 401 h b"
  shows "fst (request started client) = Inl SystemExit \<and>
         last (snd (request started client)) = Request k"
proof (cases started)
  case True
  with assms request_attempts_401_last[of k client "[1 ..< MAX_RETRIES + 1]" h b]
  show ?thesis by (simp add: request_def)
next
  case False
  with assms show ?thesis by (simp add: request_def)
qed

theorem request_401_fatal_witness:
  "snd (request True flaky_then_401) = [Request 1, Sleep 2, Request 2] \<and>
   flaky_then_401 2 = Response 401 NoHeader None \<and>
   fst (request True flaky_then_401) = Inl SystemExit \<and>
   last (snd (request True flaky_then_401)) = Request 2"
proof -
  have run: "snd (request True flaky_then_401) = [Request 1, Sleep 2, Request 2]"
    by (simp add: request_def MAX_RETRIES_def upt_rec flaky_then_401_def)
  then have h1: "Request 2 \<in> set (snd (request True flaky_then_401))" by simp
  have h2: "flaky_then_401 2 = Response 401 NoHeader None"
    by (simp add: flaky_then_401_def)
  from request_401_fatal[OF h1 h2] run h2 show ?thesis by blast
qed

section \<open>Properties of the poll loop\<close>

lemma collect_new_all:
  "seen \<notin> Some ` msg_id ` set page \<Longrightarrow> collect_new seen page = page"
  by (induction page) auto

lemma process_messages_all:
  "\<forall>n. dispatch n = None \<Longrightarrow>
   process_messages dispatch n bot_id is_authorized room_id msgs =
     (None, map (Pair room_id) (List.map_filter (event_of bot_id is_authorized) msgs))"
  by (induction msgs arbitrary: n) (auto split: option.splits)

lemma event_of_user_msg:
  "event_of (Some (lit ''bot'')) only_user (user_msg i ''hello'') = Some (lit ''hello'')"
  by (simp add: event_of_def only_user_def user_msg_def lit_def py_strip_def py_isspace_def)

text \<open>
  C5: the first poll of a room (the room is not yet among the initialized ones) whose feed
  is not empty stores the id of the newest message as the room's cursor, adds the room to
  the initialized ones, raises nothing and calls \<open>dispatch\<close> not once, whatever the feed
  holds.
\<close>

theorem first_poll_marks_position:
  assumes "room_id \<notin> initialized_rooms st" and "messages = newest # older"
  shows "poll_room dispatch bot_id is_authorized st room_id messages =
           (None,
            st\<lparr>initialized_rooms := insert room_id (initialized_rooms st),
               last_seen := (last_seen st)(room_id \<mapsto> msg_id newest)\<rparr>,
            [])"
  using assms by (simp add: poll_room_def)

theorem first_poll_marks_position_witness:
  "poll_room always_returns (Some (lit ''bot'')) only_user
     \<lparr>last_seen = Map.empty, initialized_rooms = {}\<rparr> (lit ''room'')
     [user_msg ''m2'' ''hello'', user_msg ''m1'' ''hello''] =
   (None,
    \<lparr>last_seen = Map.empty, initialized_rooms = {}\<rparr>
      \<lparr>initialized_rooms := insert (lit ''room'') {},
       last_seen := Map.empty(lit ''room'' \<mapsto> lit ''m2'')\<rparr>,
    [])"
proof -
  have h1: "lit ''room'' \<notin> initialized_rooms \<lparr>last_seen = Map.empty, initialized_rooms = {}\<rparr>"
    by simp
  have h2: "[user_msg ''m2'' ''hello'', user_msg ''m1'' ''hello''] =
            user_msg ''m2'' ''hello'' # [user_msg ''m1'' ''hello'']"
    by simp
  from first_poll_marks_position[OF h1 h2, of always_returns "Some (lit ''bot'')" only_user]
  show ?thesis by (simp add: user_msg_def)
qed

text \<open>
  C6: in an initialized room whose cursor is the id of \<open>X\<close>, with the page \<open>[A, B, X, C]\<close>
  (newest first; \<open>A\<close> and \<open>B\<close> are other messages than \<open>X\<close>, each passes the three tests of
  the loop, and the call of \<open>dispatch\<close> for \<open>B\<close> returns), the calls of \<open>dispatch\<close> are
  exactly that for \<open>B\<close> and then that for \<open>A\<close>; \<open>X\<close> and the older \<open>C\<close> are left out, and the
  cursor becomes the id of \<open>A\<close>.
\<close>

theorem poll_window:
  assumes "room_id \<in> initialized_rooms st"
    and "last_seen st room_id = Some (msg_id X)"
    and "msg_id A \<noteq> msg_id X" and "msg_id B \<noteq> msg_id X"
    and "event_of bot_id is_authorized A = Some text_A"
    and "event_of bot_id is_authorized B = Some text_B"
    and "dispatch 0 = None"
  shows "poll_room dispatch bot_id is_authorized st room_id [A, B, X, C] =
           (dispatch 1,
            st\<lparr>last_seen := (last_seen st)(room_id \<mapsto> msg_id A)\<rparr>,
            [(room_id, text_B), (room_id, text_A)])"
  using assms by (simp add: poll_room_def split: option.splits)

theorem poll_window_witness:
  "poll_room always_returns (Some (lit ''bot'')) only_user (room_cursor ''x'') (lit ''room'')
     [user_msg ''a'' ''hello'', user_msg ''b'' ''hello'', user_msg ''x'' ''hello'',
      user_msg ''c'' ''hello''] =
   (None,
    (room_cursor ''x'')\<lparr>last_seen := (last_seen (room_cursor ''x''))(lit ''room'' \<mapsto> lit ''a'')\<rparr>,
    [(lit ''room'', lit ''hello''), (lit ''room'', lit ''hello'')])"
proof -
  have h1: "lit ''room'' \<in> initialized_rooms (room_cursor ''x'')"
    by (simp add: room_cursor_def)
  have h2: "last_seen (room_cursor ''x'') (lit ''room'') = Some (msg_id (user_msg ''x'' ''hello''))"
    by (simp add: room_cursor_def user_msg_def)
  have h3: "msg_id (user_msg ''a'' ''hello'') \<noteq> msg_id (user_msg ''x'' ''hello'')"
    by (simp add: user_msg_def lit_def)
  have h4: "msg_id (user_msg ''b'' ''hello'') \<noteq> msg_id (user_msg ''x'' ''hello'')"
    by (simp add: user_msg_def lit_def)
  have h5: "always_returns 0 = None" by (simp add: always_returns_def)
  from poll_window[where dispatch = always_returns and C = "user_msg ''c'' ''hello''",
                   OF h1 h2 h3 h4 event_of_user_msg[of "''a''"] event_of_user_msg[of "''b''"] h5]
  show ?thesis by (simp add: always_returns_def user_msg_def)
qed

text \<open>
  C10: in an initialized room, if the stored cursor is the id of no message of the fetched
  page, then the whole page, oldest first, goes through the loop over new messages, and
  the cursor becomes the id of the newest message. So when no call of \<open>dispatch\<close> raises,
  every message of the page that passes the three tests of the loop is dispatched, those
  older than the lost cursor included.
\<close>

theorem poll_cursor_missing:
  assumes "room_id \<in> initialized_rooms st"
    and "page = newest # older"
    and "last_seen st room_id \<notin> Some ` msg_id ` set page"
  shows "poll_room dispatch bot_id is_authorized st room_id page =
           (fst (process_messages dispatch 0 bot_id is_authorized room_id (rev page)),
            st\<lparr>last_seen := (last_seen st)(room_id \<mapsto> msg_id newest)\<rparr>,
            snd (process_messages dispatch 0 bot_id is_authorized room_id (rev page))) \<and>
         ((\<forall>n. dispatch n = None) \<longrightarrow>
          snd (snd (poll_room dispatch bot_id is_authorized st room_id page)) =
            map (Pair room_id) (List.map_filter (event_of bot_id is_authorized) (rev page)))"
proof -
  have c: "collect_new (last_seen st room_id) page = page"
    using assms(3) by (rule collect_new_all)
  have ne: "last_seen st room_id \<noteq> Some (msg_id newest)"
    using assms(2,3) by auto
  have g: "poll_room dispatch bot_id is_authorized st room_id page =
           (fst (process_messages dispatch 0 bot_id is_authorized room_id (rev page)),
            st\<lparr>last_seen := (last_seen st)(room_id \<mapsto> msg_id newest)\<rparr>,
            snd (process_messages dispatch 0 bot_id is_authorized room_id (rev page)))"
    using assms(1) ne c unfolding poll_room_def assms(2)
    by (simp add: Let_def split: prod.splits)
  have "(\<forall>n. dispatch n = None) \<longrightarrow>
         snd (snd (poll_room dispatch bot_id is_authorized st room_id page)) =
           map (Pair room_id) (List.map_filter (event_of bot_id is_authorized) (rev page))"
    unfolding g by (simp add: process_messages_all)
  with g show ?thesis by blast
qed

theorem poll_cursor_missing_witness:
  "last_seen (room_cursor ''gone'') (lit ''room'') = Some (lit ''gone'') \<and>
   snd (snd (poll_room always_returns (Some (lit ''bot'')) only_user (room_cursor ''gone'')
               (lit ''room'') [user_msg ''m3'' ''hello'', user_msg ''m2'' ''hello''])) =
     [(lit ''room'', lit ''hello''), (lit ''room'', lit ''hello'')]"
proof -
  have h1: "lit ''room'' \<in> initialized_rooms (room_cursor ''gone'')"
    by (simp add: room_cursor_def)
  have h2: "[user_msg ''m3'' ''hello'', user_msg ''m2'' ''hello''] =
            user_msg ''m3'' ''hello'' # [user_msg ''m2'' ''hello'']"
    by simp
  have h3: "last_seen (room_cursor ''gone'') (lit ''room'') \<notin>
            Some ` msg_id ` set [user_msg ''m3'' ''hello'', user_msg ''m2'' ''hello'']"
    by (simp add: room_cursor_def user_msg_def lit_def)
  have h4: "\<forall>n. always_returns n = None" by (simp add: always_returns_def)
  have h5: "last_seen (room_cursor ''gone'') (lit ''room'') = Some (lit ''gone'')"
    by (simp add: room_cursor_def)
  from poll_cursor_missing[OF h1 h2 h3, of always_returns "Some (lit ''bot'')" only_user] h4
  have "snd (snd (poll_room always_returns (Some (lit ''bot'')) only_user (room_cursor ''gone'')
               (lit ''room'') [user_msg ''m3'' ''hello'', user_msg ''m2'' ''hello''])) =
        map (Pair (lit ''room''))
          (List.map_filter (event_of (Some (lit ''bot'')) only_user)
             (rev [user_msg ''m3'' ''hello'', user_msg ''m2'' ''hello'']))"
    by blast
  then show ?thesis using h5 by (simp add: event_of_user_msg)
qed

section \<open>Properties of a conversational turn\<close>

subsection \<open>What one step does to the guard\<close>











subsection \<open>The single-flight guard\<close>




end
